theory Spec2Isabelle
  imports Main "HOL-Library.AList" "HOL-Library.Sublist"
begin

section \<open>Text primitives\<close>

text \<open>
  Text is a list of 8-bit characters, read as the code points 0..255. The predicates
  below are Python's \<^verbatim>\<open>str.isspace\<close> and \<^verbatim>\<open>str.lower\<close> on that range; the regular
  expression class \<^verbatim>\<open>\s\<close> of a str pattern is the same set as \<^verbatim>\<open>str.isspace\<close>.
\<close>

definition newline :: char where
  "newline = CHR 0x0A"

definition isspace :: "char \<Rightarrow> bool" where
  "isspace c =
     (let n = (of_char c :: nat)
      in (9 \<le> n \<and> n \<le> 13) \<or> (28 \<le> n \<and> n \<le> 32) \<or> n = 133 \<or> n = 160)"

definition lower_char :: "char \<Rightarrow> char" where
  "lower_char c =
     (let n = (of_char c :: nat)
      in if (65 \<le> n \<and> n \<le> 90) \<or> (192 \<le> n \<and> n \<le> 222 \<and> n \<noteq> 215)
         then char_of (n + 32) else c)"

definition lower :: "string \<Rightarrow> string" where
  "lower s = map lower_char s"

definition strip :: "string \<Rightarrow> string" where
  "strip s = rev (dropWhile isspace (rev (dropWhile isspace s)))"

definition startswith :: "string \<Rightarrow> string \<Rightarrow> bool" where
  "startswith s p = (take (length p) s = p)"

definition endswith :: "string \<Rightarrow> string \<Rightarrow> bool" where
  "endswith s p = (length p \<le> length s \<and> drop (length s - length p) s = p)"

text \<open>\<^verbatim>\<open>sub in s\<close> on strings: \<open>sub\<close> occurs in \<open>s\<close> as a contiguous block.\<close>

fun contains :: "string \<Rightarrow> string \<Rightarrow> bool" where
  "contains [] sub = (sub = [])"
| "contains (c # cs) sub = (startswith (c # cs) sub \<or> contains cs sub)"

text \<open>\<^verbatim>\<open>s.split('\n')\<close>: the pieces between newlines, empty pieces kept.\<close>

fun split_lines :: "string \<Rightarrow> string list" where
  "split_lines [] = [[]]"
| "split_lines (c # cs) =
     (if c = newline then [] # split_lines cs
      else (case split_lines cs of [] \<Rightarrow> [[c]] | l # ls \<Rightarrow> (c # l) # ls))"

text \<open>
  \<^verbatim>\<open>str(n)\<close> for an integer: decimal digits, a minus sign when negative. CPython refuses
  the conversion of an integer of more than 4300 digits with a ValueError, which is
  \<open>None\<close> here.
\<close>

fun digits :: "nat \<Rightarrow> string" where
  "digits n =
     (if n < 10 then [char_of (48 + n)]
      else digits (n div 10) @ [char_of (48 + n mod 10)])"

declare digits.simps [simp del]

definition max_str_digits :: nat where
  "max_str_digits = 4300"

definition str_int :: "int \<Rightarrow> string option" where
  "str_int i =
     (let ds = digits (nat \<bar>i\<bar>)
      in if max_str_digits < length ds then None
         else Some (if i < 0 then CHR ''-'' # ds else ds))"

section \<open>Regular expressions\<close>

text \<open>
  Every pattern of the program is a sequence of single-character classes, each taken
  once, one or more times (\<^verbatim>\<open>+\<close>) or zero or more times (\<^verbatim>\<open>*\<close>), and possibly an
  end anchor. \<open>rmatch\<close> is the backtracking matcher of Python's \<^verbatim>\<open>re\<close> on that
  fragment: a repetition is greedy, so the longest run is tried first and shortened one
  character at a time until the rest of the pattern matches. The result lists the text
  matched by each item, from which the groups are read.
\<close>

datatype quant = Once | OneOrMore | ZeroOrMore

datatype item = Chars "char \<Rightarrow> bool" quant | EndAnchor

fun first_some :: "('a \<Rightarrow> 'b option) \<Rightarrow> 'a list \<Rightarrow> 'b option" where
  "first_some f [] = None"
| "first_some f (x # xs) = (case f x of Some y \<Rightarrow> Some y | None \<Rightarrow> first_some f xs)"

definition run_lengths :: "quant \<Rightarrow> nat \<Rightarrow> nat list" where
  "run_lengths q n =
     (case q of
        Once \<Rightarrow> (if 0 < n then [1] else [])
      | OneOrMore \<Rightarrow> rev [1..<Suc n]
      | ZeroOrMore \<Rightarrow> rev [0..<Suc n])"

fun rmatch :: "item list \<Rightarrow> string \<Rightarrow> string list option" where
  "rmatch [] s = Some []"
| "rmatch (EndAnchor # its) s =
     (if s = [] \<or> s = [newline] then map_option (Cons []) (rmatch its s) else None)"
| "rmatch (Chars p q # its) s =
     first_some (\<lambda>k. map_option (Cons (take k s)) (rmatch its (drop k s)))
       (run_lengths q (length (takeWhile p s)))"

text \<open>\<^verbatim>\<open>re.search\<close>: the match at the leftmost position that has one.\<close>

fun re_search :: "item list \<Rightarrow> string \<Rightarrow> string list option" where
  "re_search its [] = rmatch its []"
| "re_search its (c # cs) =
     (case rmatch its (c # cs) of Some gs \<Rightarrow> Some gs | None \<Rightarrow> re_search its cs)"

text \<open>
  \<^verbatim>\<open>re.findall\<close> for a pattern without groups: the matched texts, left to right,
  the scan resuming where the previous match ended.
\<close>

fun re_findall :: "item list \<Rightarrow> string \<Rightarrow> string list" where
  "re_findall its [] = (case rmatch its [] of Some gs \<Rightarrow> [concat gs] | None \<Rightarrow> [])"
| "re_findall its (c # cs) =
     (case rmatch its (c # cs) of
        Some gs \<Rightarrow> concat gs # re_findall its (drop (length (concat gs) - 1) cs)
      | None \<Rightarrow> re_findall its cs)"

definition lit :: "char \<Rightarrow> item" where
  "lit k = Chars (\<lambda>c. c = k) Once"

text \<open>A literal character under \<^verbatim>\<open>re.IGNORECASE\<close>.\<close>

definition lit_ci :: "char \<Rightarrow> item" where
  "lit_ci k = Chars (\<lambda>c. lower_char c = lower_char k) Once"

text \<open>The class \<^verbatim>\<open>[a-fA-F0-9\-]\<close>.\<close>

definition hexdash :: "char \<Rightarrow> bool" where
  "hexdash c = (c \<in> set ''abcdefABCDEF0123456789-'')"

text \<open>\<^verbatim>\<open>{[a-fA-F0-9\-]+}\<close>\<close>

definition identifier_pattern :: "item list" where
  "identifier_pattern = [lit CHR ''{'', Chars hexdash OneOrMore, lit CHR ''}'']"

text \<open>\<^verbatim>\<open>^\s*([^\s]+)\s+(.+)$\<close>; group 1 is item 1, group 2 is item 3.\<close>

definition line_pattern :: "item list" where
  "line_pattern =
     [Chars isspace ZeroOrMore, Chars (\<lambda>c. \<not> isspace c) OneOrMore,
      Chars isspace OneOrMore, Chars (\<lambda>c. c \<noteq> newline) OneOrMore, EndAnchor]"

text \<open>\<^verbatim>\<open>rf'{key}\s+(.+)'\<close> with \<^verbatim>\<open>re.IGNORECASE\<close>; the group is the last item.\<close>

definition key_value_pattern :: "string \<Rightarrow> item list" where
  "key_value_pattern key =
     map lit_ci key @ [Chars isspace OneOrMore, Chars (\<lambda>c. c \<noteq> newline) OneOrMore]"

section \<open>The external tool\<close>

text \<open>
  \<^verbatim>\<open>subprocess.run(argv, capture_output=True, text=True, errors="replace")\<close> either
  raises (the program could not be started) or returns the exit code and the decoded
  output. The tool is any function of the invocations made so far and the argument
  vector; the state threaded through the program is the list of invocations attempted.
\<close>

datatype run_result = Raises | Completed int string string

type_synonym tool = "string list list \<Rightarrow> string list \<Rightarrow> run_result"

type_synonym log = "string list list"

definition subprocess_run :: "tool \<Rightarrow> string list \<Rightarrow> log \<Rightarrow> run_result \<times> log" where
  "subprocess_run tool argv log = (tool log argv, log @ [argv])"

section \<open>Translation table\<close>

datatype lang_code = EN | DE | FR | ES

fun property_translations :: "lang_code \<Rightarrow> (string \<times> string) list" where
  "property_translations EN =
     [(''identifier'', ''identifier''), (''device'', ''device''), (''path'', ''path''),
      (''description'', ''description''), (''type'', ''type''), (''default'', ''default''),
      (''bootmgr'', ''bootmgr''), (''timeout'', ''timeout''),
      (''displayorder'', ''displayorder''), (''osdevice'', ''osdevice'')]"
| "property_translations DE =
     [(''identifier'', ''bezeichner''), (''device'', ''ger'' @ [CHR 0xE4] @ ''t''),
      (''path'', ''pfad''), (''description'', ''beschreibung''), (''type'', ''typ''),
      (''default'', ''standard''), (''bootmgr'', ''boot-manager''),
      (''timeout'', ''zeitlimit''), (''displayorder'', ''anzeigereihenfolge''),
      (''osdevice'', ''osger'' @ [CHR 0xE4] @ ''t'')]"
| "property_translations FR =
     [(''identifier'', ''identificateur''),
      (''device'', ''p'' @ [CHR 0xE9] @ ''riph'' @ [CHR 0xE9] @ ''rique''),
      (''path'', ''chemin''), (''description'', ''description''), (''type'', ''type''),
      (''default'', ''d'' @ [CHR 0xE9] @ ''faut''),
      (''bootmgr'', ''gestionnaire de d'' @ [CHR 0xE9] @ ''marrage''),
      (''timeout'', ''d'' @ [CHR 0xE9] @ ''lai d'' @ [CHR 0x27] @ ''attente''),
      (''displayorder'', ''ordre d'' @ [CHR 0x27] @ ''affichage''),
      (''osdevice'', ''p'' @ [CHR 0xE9] @ ''riph'' @ [CHR 0xE9] @ ''rique os'')]"
| "property_translations ES =
     [(''identifier'', ''identificador''), (''device'', ''dispositivo''),
      (''path'', ''ruta''), (''description'', ''descripci'' @ [CHR 0xF3] @ ''n''),
      (''type'', ''tipo''), (''default'', ''predeterminado''),
      (''bootmgr'', ''administrador de arranque''), (''timeout'', ''tiempo de espera''),
      (''displayorder'', ''orden de visualizaci'' @ [CHR 0xF3] @ ''n''),
      (''osdevice'', ''dispositivo del so'')]"

definition get_translation :: "lang_code \<Rightarrow> string \<Rightarrow> string" where
  "get_translation lang_code key =
     (case map_of (property_translations lang_code) (lower key) of
        Some t \<Rightarrow> t
      | None \<Rightarrow> key)"

section \<open>Reading the store\<close>

definition bcdedit :: string where
  "bcdedit = ''bcdedit''"

definition get_entries :: "tool \<Rightarrow> log \<Rightarrow> string option \<times> log" where
  "get_entries tool log =
     (case subprocess_run tool [bcdedit, ''/enum'', ''/v''] log of
        (Raises, log1) \<Rightarrow> (None, log1)
      | (Completed returncode out err, log1) \<Rightarrow>
          if returncode \<noteq> 0 then (None, log1) else (Some out, log1))"

text \<open>The loop of \<open>list_identifiers\<close>: append what is not yet in the list.\<close>

fun unique_append :: "string list \<Rightarrow> string list \<Rightarrow> string list" where
  "unique_append unique_identifiers [] = unique_identifiers"
| "unique_append unique_identifiers (i # identifiers) =
     (if i \<notin> set unique_identifiers
      then unique_append (unique_identifiers @ [i]) identifiers
      else unique_append unique_identifiers identifiers)"

definition list_identifiers :: "tool \<Rightarrow> log \<Rightarrow> string list \<times> log" where
  "list_identifiers tool log =
     (case get_entries tool log of
        (None, log1) \<Rightarrow> ([], log1)
      | (Some out, log1) \<Rightarrow>
          if out = [] then ([], log1)
          else (unique_append [] (re_findall identifier_pattern out), log1))"

definition get_entry_info :: "tool \<Rightarrow> string \<Rightarrow> log \<Rightarrow> string option \<times> log" where
  "get_entry_info tool identifier log =
     (case subprocess_run tool [bcdedit, ''/enum'', identifier, ''/v''] log of
        (Raises, log1) \<Rightarrow> (None, log1)
      | (Completed returncode out err, log1) \<Rightarrow>
          if returncode \<noteq> 0 then (None, log1) else (Some out, log1))"

text \<open>
  A dict is an association list in insertion order; assigning to a key that is present
  replaces its value in place, as \<open>AList.update\<close> does.
\<close>

type_synonym properties = "(string \<times> string) list"

definition parse_line :: "properties \<Rightarrow> string \<Rightarrow> properties" where
  "parse_line properties line =
     (case rmatch line_pattern (strip line) of
        Some gs \<Rightarrow> AList.update (lower (gs ! 1)) (strip (gs ! 3)) properties
      | None \<Rightarrow> properties)"

definition group_all :: "string list option \<Rightarrow> string option" where
  "group_all m = map_option concat m"

definition parse_entry_properties :: "string option \<Rightarrow> properties" where
  "parse_entry_properties entry_info =
     (case entry_info of
        None \<Rightarrow> []
      | Some info \<Rightarrow>
          if info = [] then []
          else
            (let properties = foldl parse_line [] (split_lines info)
             in case group_all (re_search identifier_pattern info) of
                  Some i \<Rightarrow> AList.update ''identifier'' i properties
                | None \<Rightarrow> properties))"

text \<open>
  The value searches of the property accessors. The key is spliced into the pattern
  text; no token of the translation table holds a character that is special in a
  pattern, so each of its characters is a literal.
\<close>

definition search_value :: "string \<Rightarrow> string \<Rightarrow> string option" where
  "search_value key info =
     map_option (\<lambda>gs. strip (last gs)) (re_search (key_value_pattern key) info)"

fun first_device_value :: "string \<Rightarrow> string \<Rightarrow> properties \<Rightarrow> string" where
  "first_device_value device_key osdevice_key [] = []"
| "first_device_value device_key osdevice_key ((key, v) # rest) =
     (if contains (lower key) ''device'' \<or> contains (lower key) device_key then v
      else if contains (lower key) ''osdevice'' \<or> contains (lower key) osdevice_key then v
      else first_device_value device_key osdevice_key rest)"

fun first_path_value :: "string \<Rightarrow> properties \<Rightarrow> string" where
  "first_path_value path_key [] = []"
| "first_path_value path_key ((key, v) # rest) =
     (if contains (lower key) ''path'' \<or> contains (lower key) path_key then v
      else first_path_value path_key rest)"

definition get_entry_device :: "tool \<Rightarrow> lang_code \<Rightarrow> string \<Rightarrow> log \<Rightarrow> string \<times> log" where
  "get_entry_device tool lang identifier log =
     (case get_entry_info tool identifier log of
        (None, log1) \<Rightarrow> ([], log1)
      | (Some info, log1) \<Rightarrow>
          if info = [] then ([], log1)
          else
            (let device_key = lower (get_translation lang ''device'');
                 osdevice_key = lower (get_translation lang ''osdevice'')
             in case search_value device_key info of
                  Some v \<Rightarrow> (v, log1)
                | None \<Rightarrow>
                    (case search_value osdevice_key info of
                       Some v \<Rightarrow> (v, log1)
                     | None \<Rightarrow>
                         (first_device_value device_key osdevice_key
                            (parse_entry_properties (Some info)), log1))))"

definition get_entry_path :: "tool \<Rightarrow> lang_code \<Rightarrow> string \<Rightarrow> log \<Rightarrow> string \<times> log" where
  "get_entry_path tool lang identifier log =
     (case get_entry_info tool identifier log of
        (None, log1) \<Rightarrow> ([], log1)
      | (Some info, log1) \<Rightarrow>
          if info = [] then ([], log1)
          else
            (let path_key = lower (get_translation lang ''path'')
             in case search_value path_key info of
                  Some v \<Rightarrow> (v, log1)
                | None \<Rightarrow>
                    (case search_value ''path'' info of
                       Some v \<Rightarrow> (v, log1)
                     | None \<Rightarrow>
                         (first_path_value path_key
                            (parse_entry_properties (Some info)), log1))))"

section \<open>Status\<close>

definition check_ramdisk :: "tool \<Rightarrow> string \<Rightarrow> log \<Rightarrow> bool \<times> log" where
  "check_ramdisk tool identifier log =
     (case get_entry_info tool identifier log of
        (None, log1) \<Rightarrow> (False, log1)
      | (Some entry_info, log1) \<Rightarrow>
          if entry_info = [] then (False, log1)
          else
            (list_ex (\<lambda>param. contains (lower entry_info) param)
               [''ramdisksdidevice'', ''ramdisksdipath'',
                ''ramdisksdiprocessorarchitecture''], log1))"

definition check_uefi :: "tool \<Rightarrow> string \<Rightarrow> log \<Rightarrow> bool \<times> log" where
  "check_uefi tool identifier log =
     (case get_entry_info tool identifier log of
        (None, log1) \<Rightarrow> (False, log1)
      | (Some entry_info, log1) \<Rightarrow>
          if entry_info = [] then (False, log1)
          else
            (contains (lower entry_info) ''.efi'' \<or> contains (lower entry_info) ''uefi'',
             log1))"

definition backslash :: char where
  "backslash = CHR 0x5C"

text \<open>
  \<^verbatim>\<open>device.split("=", 1)[1]\<close>: the text after the first equals sign; indexing raises
  when there is none, which is \<open>None\<close> here.
\<close>

definition split_eq_1 :: "string \<Rightarrow> string option" where
  "split_eq_1 device =
     (if CHR ''='' \<in> set device then Some (tl (dropWhile (\<lambda>c. c \<noteq> CHR ''='') device))
      else None)"

text \<open>
  The filesystem is the predicate \<open>path_exists\<close>, standing for \<^verbatim>\<open>os.path.exists\<close>. The
  handler of \<open>partition_exists\<close> turns an exception into False.
\<close>

definition partition_exists :: "(string \<Rightarrow> bool) \<Rightarrow> string \<Rightarrow> bool" where
  "partition_exists path_exists device =
     (if device \<noteq> [] \<and> startswith (lower device) ''partition='' then
        (case split_eq_1 device of
           None \<Rightarrow> False
         | Some part \<Rightarrow>
             path_exists
               (if \<not> endswith part [backslash] then part @ [backslash] else part))
      else True)"

definition has_missing_path_or_device ::
  "tool \<Rightarrow> lang_code \<Rightarrow> (string \<Rightarrow> bool) \<Rightarrow> string \<Rightarrow> log \<Rightarrow> bool \<times> log" where
  "has_missing_path_or_device tool lang path_exists identifier log =
     (case get_entry_device tool lang identifier log of
        (device, log1) \<Rightarrow>
          (case get_entry_path tool lang identifier log1 of
             (path, log2) \<Rightarrow>
               if device = [] \<or> path = [] \<or> lower device = ''unknown''
                  \<or> lower path = ''unknown''
               then (True, log2)
               else if startswith (lower device) ''partition=''
                       \<and> \<not> partition_exists path_exists device
               then (True, log2)
               else (False, log2)))"

section \<open>Display order\<close>

definition first_identifier :: "string \<Rightarrow> string option" where
  "first_identifier s = group_all (re_search identifier_pattern s)"

text \<open>One pass of the line loop of \<open>get_display_order\<close> over its two variables.\<close>

definition order_step ::
  "string \<Rightarrow> string list \<times> bool \<Rightarrow> string \<Rightarrow> string list \<times> bool" where
  "order_step displayorder_key st line =
     (case st of
        (display_order, display_section) \<Rightarrow>
          if contains (lower line) displayorder_key \<or> contains (lower line) ''displayorder''
          then
            (case first_identifier line of
               Some i \<Rightarrow> (display_order @ [i], True)
             | None \<Rightarrow> (display_order, True))
          else if display_section \<and> strip line \<noteq> [] then
            (case first_identifier line of
               Some i \<Rightarrow> (display_order @ [i], display_section)
             | None \<Rightarrow> (display_order, display_section))
          else if display_section \<and> strip line = [] then (display_order, False)
          else (display_order, display_section))"

definition get_display_order :: "tool \<Rightarrow> lang_code \<Rightarrow> log \<Rightarrow> string list \<times> log" where
  "get_display_order tool lang log =
     (case subprocess_run tool [bcdedit, ''/enum'', ''{bootmgr}''] log of
        (Raises, log1) \<Rightarrow> ([], log1)
      | (Completed returncode out err, log1) \<Rightarrow>
          if returncode \<noteq> 0 then ([], log1)
          else
            (fst (foldl (order_step (lower (get_translation lang ''displayorder'')))
                    ([], False) (split_lines out)), log1))"

definition clear_order_cmd :: "string list" where
  "clear_order_cmd = [bcdedit, ''/deletevalue'', ''{bootmgr}'', ''displayorder'']"

definition set_order_cmd :: "string list \<Rightarrow> string list" where
  "set_order_cmd order_list = [bcdedit, ''/displayorder''] @ order_list"

definition set_display_order :: "tool \<Rightarrow> string list \<Rightarrow> log \<Rightarrow> bool \<times> log" where
  "set_display_order tool order_list log =
     (case subprocess_run tool clear_order_cmd log of
        (Raises, log1) \<Rightarrow> (False, log1)
      | (Completed rc0 out0 err0, log1) \<Rightarrow>
          if order_list \<noteq> [] then
            (case subprocess_run tool (set_order_cmd order_list) log1 of
               (Raises, log2) \<Rightarrow> (False, log2)
             | (Completed returncode out err, log2) \<Rightarrow> (returncode = 0, log2))
          else (True, log1))"

text \<open>
  \<^verbatim>\<open>xs.index(x)\<close>, the position of the first element equal to \<open>x\<close>. Both callers test
  \<^verbatim>\<open>x in xs\<close> first, so the raising case of \<^verbatim>\<open>index\<close> is never reached.
\<close>

definition index :: "'a list \<Rightarrow> 'a \<Rightarrow> nat" where
  "index xs x = length (takeWhile (\<lambda>y. y \<noteq> x) xs)"

text \<open>\<^verbatim>\<open>xs[i], xs[j] = xs[j], xs[i]\<close>: both reads, then the two writes in order.\<close>

definition swap :: "'a list \<Rightarrow> nat \<Rightarrow> nat \<Rightarrow> 'a list" where
  "swap xs i j = (let a = xs ! j; b = xs ! i in (xs[i := a])[j := b])"

definition move_entry_up :: "tool \<Rightarrow> lang_code \<Rightarrow> string \<Rightarrow> log \<Rightarrow> bool \<times> log" where
  "move_entry_up tool lang identifier log =
     (case get_display_order tool lang log of
        (display_order, log1) \<Rightarrow>
          if display_order = [] \<or> identifier \<notin> set display_order then (False, log1)
          else
            (let i = index display_order identifier
             in if i = 0 then (True, log1)
                else set_display_order tool (swap display_order i (i - 1)) log1))"

definition move_entry_down :: "tool \<Rightarrow> lang_code \<Rightarrow> string \<Rightarrow> log \<Rightarrow> bool \<times> log" where
  "move_entry_down tool lang identifier log =
     (case get_display_order tool lang log of
        (display_order, log1) \<Rightarrow>
          if display_order = [] \<or> identifier \<notin> set display_order then (False, log1)
          else
            (let i = index display_order identifier
             in if i = length display_order - 1 then (True, log1)
                else set_display_order tool (swap display_order i (i + 1)) log1))"

section \<open>Timeout\<close>

definition set_timeout :: "tool \<Rightarrow> int \<Rightarrow> log \<Rightarrow> bool \<times> log" where
  "set_timeout tool seconds log =
     (case str_int seconds of
        None \<Rightarrow> (False, log)
      | Some s \<Rightarrow>
          (case subprocess_run tool [bcdedit, ''/timeout'', s] log of
             (Raises, log1) \<Rightarrow> (False, log1)
           | (Completed returncode out err, log1) \<Rightarrow> (returncode = 0, log1)))"

text \<open>
  The handler \<^verbatim>\<open>BootManagerApp.set_timeout\<close> of the timeout field. Its input is what
  \<^verbatim>\<open>int(self.timeout_var.get())\<close> yields: an integer, or \<open>None\<close> for ValueError. What it
  shows is one dialog or one status line; a ValueError of the status text is handled like
  that of the input.
\<close>

datatype ui_effect = ShowError string string | SetStatus string

definition app_set_timeout :: "tool \<Rightarrow> int option \<Rightarrow> log \<Rightarrow> ui_effect \<times> log" where
  "app_set_timeout tool entered log =
     (case entered of
        None \<Rightarrow> (ShowError ''Input Error'' ''Timeout must be a valid integer'', log)
      | Some timeout \<Rightarrow>
          if timeout < 0
          then (ShowError ''Input Error'' ''Timeout must be a positive integer'', log)
          else
            (case set_timeout tool timeout log of
               (True, log1) \<Rightarrow>
                 (case str_int timeout of
                    None \<Rightarrow>
                      (ShowError ''Input Error'' ''Timeout must be a valid integer'', log1)
                  | Some s \<Rightarrow>
                      (SetStatus (''Set boot menu timeout to '' @ s @ '' seconds''), log1))
             | (False, log1) \<Rightarrow> (SetStatus ''Failed to set boot menu timeout'', log1)))"

section \<open>Creating an entry\<close>

text \<open>
  The follow-up commands of \<open>add_entry\<close> run one after the other; their exit codes only
  select a warning. One that cannot be started raises, and the handler of \<open>add_entry\<close>
  returns None at that point.
\<close>

fun run_each :: "tool \<Rightarrow> string list list \<Rightarrow> log \<Rightarrow> bool \<times> log" where
  "run_each tool [] log = (True, log)"
| "run_each tool (argv # rest) log =
     (case subprocess_run tool argv log of
        (Raises, log1) \<Rightarrow> (False, log1)
      | (Completed returncode out err, log1) \<Rightarrow> run_each tool rest log1)"

text \<open>Python's truth value of an optional string: neither None nor empty.\<close>

definition truthy :: "string option \<Rightarrow> bool" where
  "truthy v = (case v of None \<Rightarrow> False | Some s \<Rightarrow> s \<noteq> [])"

definition follow_ups ::
  "string \<Rightarrow> string option \<Rightarrow> string option \<Rightarrow> string option \<Rightarrow> string list list" where
  "follow_ups new_id device path type =
     (if truthy device
      then [[bcdedit, ''/set'', new_id, ''device'', the device],
            [bcdedit, ''/set'', new_id, ''osdevice'', the device]]
      else [])
     @ (if truthy path then [[bcdedit, ''/set'', new_id, ''path'', the path]] else [])
     @ (if truthy type then [[bcdedit, ''/set'', new_id, ''type'', the type]] else [])"

definition copy_cmd :: "string \<Rightarrow> string list" where
  "copy_cmd description = [bcdedit, ''/copy'', ''{current}'', ''/d'', description]"

definition add_entry ::
  "tool \<Rightarrow> string \<Rightarrow> string option \<Rightarrow> string option \<Rightarrow> string option \<Rightarrow> log
     \<Rightarrow> string option \<times> log" where
  "add_entry tool description device path type log =
     (case subprocess_run tool (copy_cmd description) log of
        (Raises, log1) \<Rightarrow> (None, log1)
      | (Completed returncode out err, log1) \<Rightarrow>
          if returncode \<noteq> 0 then (None, log1)
          else
            (case first_identifier out of
               None \<Rightarrow> (None, log1)
             | Some new_id \<Rightarrow>
                 (case run_each tool (follow_ups new_id device path type) log1 of
                    (True, log2) \<Rightarrow> (Some new_id, log2)
                  | (False, log2) \<Rightarrow> (None, log2))))"

section \<open>The other operations on the store\<close>

































section \<open>The privilege check\<close>



section \<open>Failures of the external tool\<close>

text \<open>
  The exit code of a command issued at the log \<open>log\<close>, None when it cannot be started.
  Of the commands \<open>cmds\<close>, issued one after the other from \<open>log\<close>: one could not be
  started (\<open>spawn_failure_in\<close>), one ran and exited with a non-zero code
  (\<open>exit_failure_in\<close>). The same of the commands an operation added to the log it was
  given (\<open>spawn_failed\<close>, \<open>exit_failed\<close>), and the exit code of the last of them.
\<close>

definition exit_code :: "tool \<Rightarrow> log \<Rightarrow> string list \<Rightarrow> int option" where
  "exit_code tool log argv =
     (case tool log argv of Raises \<Rightarrow> None | Completed returncode out err \<Rightarrow> Some returncode)"

fun spawn_failure_in :: "tool \<Rightarrow> log \<Rightarrow> string list list \<Rightarrow> bool" where
  "spawn_failure_in tool log [] = False"
| "spawn_failure_in tool log (argv # cmds) =
     (exit_code tool log argv = None \<or> spawn_failure_in tool (log @ [argv]) cmds)"

fun exit_failure_in :: "tool \<Rightarrow> log \<Rightarrow> string list list \<Rightarrow> bool" where
  "exit_failure_in tool log [] = False"
| "exit_failure_in tool log (argv # cmds) =
     ((case exit_code tool log argv of None \<Rightarrow> False | Some returncode \<Rightarrow> returncode \<noteq> 0)
      \<or> exit_failure_in tool (log @ [argv]) cmds)"






section \<open>The missing-entry status as the specification words it\<close>






section \<open>Identifiers in a text, as the specification words them\<close>

text \<open>
  A brace-delimited identifier: an opening brace, one or more hexadecimal digits or
  hyphens, a closing brace. It occurs in a text \<open>s\<close> at the position \<open>length pre\<close> when
  \<open>s = pre @ w @ post\<close>.
\<close>

definition is_identifier :: "string \<Rightarrow> bool" where
  "is_identifier w =
     (case w of
        [] \<Rightarrow> False
      | c # r \<Rightarrow> c = CHR ''{'' \<and> r \<noteq> [] \<and> last r = CHR ''}'' \<and> butlast r \<noteq> []
                 \<and> list_all hexdash (butlast r))"

text \<open>The position at which \<open>w\<close> first starts in a text, used to compare positions.\<close>

fun first_pos :: "string \<Rightarrow> string \<Rightarrow> nat" where
  "first_pos w [] = 0"
| "first_pos w (c # cs) = (if startswith (c # cs) w then 0 else Suc (first_pos w cs))"

section \<open>Scripted tools\<close>

text \<open>
  A stand-in for the external program in concrete instances: it answers the n-th
  invocation with the n-th entry of a fixed script, whatever the arguments, and cannot be
  started once the script is used up.
\<close>

definition scripted :: "run_result list \<Rightarrow> tool" where
  "scripted results log argv =
     (if length log < length results then results ! length log else Raises)"


text \<open>
  A dump of the boot manager as the tool prints it: the display order starts on the line
  of its key and continues one identifier a line, up to an empty line.
\<close>

definition dump_of :: "string list \<Rightarrow> string" where
  "dump_of order_list =
     ''Windows Boot Manager'' @ [newline] @ ''--------------------'' @ [newline]
     @ ''identifier              {bootmgr}'' @ [newline]
     @ ''displayorder''
     @ concat (map (\<lambda>i. ''            '' @ i @ [newline]) order_list)
     @ [newline] @ ''timeout                 30'' @ [newline]"

definition bootmgr_dump :: string where
  "bootmgr_dump = dump_of [''{aa}'', ''{bb}'', ''{cc}'']"




text \<open>
  A tool whose display order holds \<open>{bb}\<close> three times, and a tool that behaves as a
  store over one move: it reports the order \<open>{aa}\<close>, \<open>{bb}\<close>, \<open>{cc}\<close>, accepts a clear
  and a set-order command, and then reports the order it was given.
\<close>

definition dup_tool :: tool where
  "dup_tool = scripted
     [Completed 0 (dump_of [''{bb}'', ''{aa}'', ''{bb}'', ''{cc}'', ''{bb}'']) [],
      Completed 0 (dump_of [''{bb}'', ''{aa}'', ''{bb}'', ''{cc}'', ''{bb}'']) [],
      Completed 0 [] [], Completed 0 [] []]"

definition store_tool :: tool where
  "store_tool = scripted
     [Completed 0 (dump_of [''{aa}'', ''{bb}'', ''{cc}'']) [],
      Completed 0 [] [], Completed 0 [] [],
      Completed 0 (dump_of [''{bb}'', ''{aa}'', ''{cc}'']) [],
      Completed 0 [] [], Completed 0 [] []]"





text \<open>
  A full enumeration with a boot manager and one loader, and the dump of that loader as a
  German system prints it: the key before the identifier is not a canonical one.
\<close>

definition enum_dump :: string where
  "enum_dump =
     ''Windows Boot Manager'' @ [newline]
     @ ''identifier              {9dea862c-5cdd}'' @ [newline]
     @ ''default                 {aa-01}'' @ [newline]
     @ ''displayorder            {aa-01}'' @ [newline]
     @ ''                        {bb-02}'' @ [newline] @ [newline]
     @ ''Windows Boot Loader'' @ [newline]
     @ ''identifier              {aa-01}'' @ [newline]
     @ ''device                  partition=C:'' @ [newline]"

definition entry_dump :: string where
  "entry_dump =
     ''Windows-Startladeprogramm'' @ [newline]
     @ ''Bezeichner              {aa-01}'' @ [newline]
     @ ''device                  partition=C:'' @ [newline]
     @ ''resumeobject            {cc-03}'' @ [newline]"

text \<open>
  The dump of \<open>{bb-02}\<close> with another identifier before its own, a tool that lists
  \<open>{bb-02}\<close> and then refuses its enumeration, and a tool that answers it with that dump.
\<close>

definition stray_dump :: string where
  "stray_dump =
     ''Windows Boot Loader'' @ [newline]
     @ ''inherit                 {aa-01}'' @ [newline]
     @ ''identifier              {bb-02}'' @ [newline]
     @ ''device                  partition=D:'' @ [newline]"

definition dangling_tool :: tool where
  "dangling_tool =
     scripted [Completed 0 enum_dump [], Completed 1 [] ''The specified entry is not valid'']"

definition stray_tool :: tool where
  "stray_tool = scripted [Completed 0 enum_dump [], Completed 0 stray_dump []]"



section \<open>Properties\<close>

subsection \<open>Timeout validation\<close>

text \<open>
  Claim C1. A negative timeout is rejected before any command is issued: the handler that
  sets the timeout checks the entered integer, and for a negative one it reports an input
  error and leaves the list of invocations as it was. The check is made by the caller,
  \<^verbatim>\<open>BootManagerApp.set_timeout\<close>; \<^verbatim>\<open>AdvancedBootManager.set_timeout\<close> is reached only
  for a non-negative value.
\<close>

theorem app_set_timeout_rejects_negative:
  "seconds < 0 \<Longrightarrow>
     app_set_timeout tool (Some seconds) log =
       (ShowError ''Input Error'' ''Timeout must be a positive integer'', log)"
  by (simp add: app_set_timeout_def)

theorem app_set_timeout_rejects_negative_witness:
  "(- 1 :: int) < 0 \<and>
   app_set_timeout (scripted []) (Some (- 1)) [] =
     (ShowError ''Input Error'' ''Timeout must be a positive integer'', [])"
  using app_set_timeout_rejects_negative [of "- 1" "scripted []" "[]"] by simp

subsection \<open>Creating an entry\<close>

text \<open>
  Claim C5. When the copy command fails (it cannot be started, it exits with a non-zero
  code, or its output holds no identifier), \<open>add_entry\<close> returns no identifier and the
  copy command is the only invocation it made.
\<close>

theorem add_entry_copy_fails:
  "tool log (copy_cmd description) = Raises \<or>
   (\<exists>returncode out err. tool log (copy_cmd description) = Completed returncode out err \<and>
      (returncode \<noteq> 0 \<or> first_identifier out = None)) \<Longrightarrow>
   add_entry tool description device path type log = (None, log @ [copy_cmd description])"
  by (auto simp: add_entry_def subprocess_run_def)

theorem add_entry_copy_fails_witness:
  "add_entry (scripted [Completed 1 [] ''denied'']) ''Linux''
     (Some ''partition=D:'') (Some ''x'') None []
   = (None, [copy_cmd ''Linux''])"
  using add_entry_copy_fails [of "scripted [Completed 1 [] ''denied'']" "[]" "''Linux''"
      "Some ''partition=D:''" "Some ''x''" None]
  by (simp add: scripted_def)

subsection \<open>Moving an entry that is not in the display order\<close>

text \<open>
  Claim C9. When the display order read from the tool is empty or does not hold the
  identifier, \<open>move_entry_up\<close> and \<open>move_entry_down\<close> return False, and the only
  invocation either made is the read of the boot manager: no clear and no set-order
  command.
\<close>

theorem move_absent_fails:
  "get_display_order tool lang log = (display_order, log1) \<Longrightarrow>
   display_order = [] \<or> identifier \<notin> set display_order \<Longrightarrow>
   move_entry_up tool lang identifier log
     = (False, log @ [[bcdedit, ''/enum'', ''{bootmgr}'']]) \<and>
   move_entry_down tool lang identifier log
     = (False, log @ [[bcdedit, ''/enum'', ''{bootmgr}'']])"
  by (auto simp: move_entry_up_def move_entry_down_def get_display_order_def
      subprocess_run_def split: run_result.splits if_splits)

theorem move_absent_fails_witness:
  "move_entry_up (scripted [Completed 0 bootmgr_dump []]) EN ''{dd}'' []
     = (False, [[bcdedit, ''/enum'', ''{bootmgr}'']]) \<and>
   move_entry_down (scripted [Completed 0 bootmgr_dump []]) EN ''{dd}'' []
     = (False, [[bcdedit, ''/enum'', ''{bootmgr}'']])"
proof -
  have h: "get_display_order (scripted [Completed 0 bootmgr_dump []]) EN []
             = ([''{aa}'', ''{bb}'', ''{cc}''], [[bcdedit, ''/enum'', ''{bootmgr}'']])"
    by code_simp
  show ?thesis
    using move_absent_fails [OF h, of "''{dd}''"] by simp
qed

subsection \<open>Status of an entry whose dump cannot be fetched\<close>

text \<open>
  Claim C10. When the enumeration of one identifier yields no output (the call cannot be
  started, exits with a non-zero code, or prints nothing), the status functions return
  their defaults: \<open>check_uefi\<close> and \<open>check_ramdisk\<close> are False, the device and the path
  are the empty string, and \<open>has_missing_path_or_device\<close> is True.
\<close>

theorem no_dump_degrades:
  assumes "\<forall>log. fst (get_entry_info tool identifier log) = None \<or>
                 fst (get_entry_info tool identifier log) = Some []"
  shows "fst (check_uefi tool identifier log) = False \<and>
         fst (check_ramdisk tool identifier log) = False \<and>
         fst (get_entry_device tool lang identifier log) = [] \<and>
         fst (get_entry_path tool lang identifier log) = [] \<and>
         fst (has_missing_path_or_device tool lang path_exists identifier log) = True"
proof -
  have dev: "fst (get_entry_device tool lang identifier l) = []" for l
    using assms [rule_format, of l]
    by (cases "get_entry_info tool identifier l") (auto simp: get_entry_device_def)
  have pth: "fst (get_entry_path tool lang identifier l) = []" for l
    using assms [rule_format, of l]
    by (cases "get_entry_info tool identifier l") (auto simp: get_entry_path_def)
  have uefi: "fst (check_uefi tool identifier log) = False"
    using assms [rule_format, of log]
    by (cases "get_entry_info tool identifier log") (auto simp: check_uefi_def)
  have ram: "fst (check_ramdisk tool identifier log) = False"
    using assms [rule_format, of log]
    by (cases "get_entry_info tool identifier log") (auto simp: check_ramdisk_def)
  have miss: "fst (has_missing_path_or_device tool lang path_exists identifier log) = True"
    using dev [of log]
    by (cases "get_entry_device tool lang identifier log")
       (auto simp: has_missing_path_or_device_def split: prod.splits)
  from dev pth uefi ram miss show ?thesis by blast
qed

theorem no_dump_degrades_witness:
  "fst (check_uefi (scripted []) ''{aa}'' []) = False \<and>
   fst (check_ramdisk (scripted []) ''{aa}'' []) = False \<and>
   fst (get_entry_device (scripted []) DE ''{aa}'' []) = [] \<and>
   fst (get_entry_path (scripted []) DE ''{aa}'' []) = [] \<and>
   fst (has_missing_path_or_device (scripted []) DE (\<lambda>p. True) ''{aa}'' []) = True"
proof -
  have h: "\<forall>log. fst (get_entry_info (scripted []) ''{aa}'' log) = None \<or>
                fst (get_entry_info (scripted []) ''{aa}'' log) = Some []"
    by (simp add: get_entry_info_def subprocess_run_def scripted_def)
  show ?thesis
    using no_dump_degrades [OF h, of "[]" DE "\<lambda>p. True"] by simp
qed

subsection \<open>Writing the display order\<close>

text \<open>
  Claim C4 as stated, that \<open>set_display_order\<close> returns success for every empty list,
  fails when the clear command cannot be started: the handler returns False.
\<close>

theorem set_display_order_unreachable_counterexample:
  "set_display_order (scripted []) [] [] = (False, [clear_order_cmd])"
  by (simp add: set_display_order_def subprocess_run_def scripted_def)

text \<open>
  Claim C4, amended. \<open>set_display_order\<close> always attempts the clear command first. When
  that command could be started, whatever its exit code, exactly one set-order command
  with the whole list follows if and only if the list is not empty, and for the empty
  list the result is True. When the clear command could not be started, the result is
  False and no set-order command follows.
\<close>

theorem set_display_order_commands:
  "snd (set_display_order tool order_list log)
     = log @ clear_order_cmd #
         (if tool log clear_order_cmd \<noteq> Raises \<and> order_list \<noteq> []
          then [bcdedit # ''/displayorder'' # order_list] else []) \<and>
   (tool log clear_order_cmd \<noteq> Raises \<longrightarrow> order_list = [] \<longrightarrow>
      fst (set_display_order tool order_list log) = True) \<and>
   (tool log clear_order_cmd = Raises \<longrightarrow>
      fst (set_display_order tool order_list log) = False)"
  by (cases "tool log clear_order_cmd")
     (auto simp: set_display_order_def subprocess_run_def set_order_cmd_def
       split: run_result.splits)

theorem set_display_order_commands_witness:
  "snd (set_display_order (scripted [Completed 1 [] [], Completed 0 [] []]) [''{bb}'', ''{aa}''] [])
     = [clear_order_cmd, [bcdedit, ''/displayorder'', ''{bb}'', ''{aa}'']] \<and>
   fst (set_display_order (scripted [Completed 1 [] []]) [] []) = True \<and>
   fst (set_display_order (scripted []) [''{aa}''] []) = False"
  using set_display_order_commands [of "scripted [Completed 1 [] [], Completed 0 [] []]" "[''{bb}'', ''{aa}'']" "[]"]
    set_display_order_commands [of "scripted [Completed 1 [] []]" "[]" "[]"]
    set_display_order_commands [of "scripted []" "[''{aa}'']" "[]"]
  by (simp add: scripted_def)

subsection \<open>Moving an entry up and down\<close>

lemma index_less: "x \<in> set xs \<Longrightarrow> index xs x < length xs"
  unfolding index_def by (induction xs) auto

lemma nth_index: "x \<in> set xs \<Longrightarrow> xs ! index xs x = x"
  unfolding index_def by (induction xs) auto

lemma before_index: "j < index xs x \<Longrightarrow> xs ! j \<noteq> x"
proof -
  assume a: "j < index xs x"
  then have "takeWhile (\<lambda>y. y \<noteq> x) xs ! j \<in> set (takeWhile (\<lambda>y. y \<noteq> x) xs)"
    unfolding index_def by (rule nth_mem)
  then have "takeWhile (\<lambda>y. y \<noteq> x) xs ! j \<noteq> x"
    by (auto dest: set_takeWhileD)
  moreover have "takeWhile (\<lambda>y. y \<noteq> x) xs ! j = xs ! j"
    using a unfolding index_def by (rule takeWhile_nth)
  ultimately show ?thesis by simp
qed

lemma index_eqI:
  assumes a: "i < length xs" "xs ! i = x" and b: "\<And>j. j < i \<Longrightarrow> xs ! j \<noteq> x"
  shows "index xs x = i"
proof -
  have mem: "x \<in> set xs" using a by auto
  have "\<not> index xs x < i" using b [of "index xs x"] nth_index [OF mem] by auto
  moreover have "\<not> i < index xs x" using before_index [of i xs x] a by auto
  ultimately show ?thesis by simp
qed

lemma length_swap: "length (swap xs i j) = length xs"
  by (simp add: swap_def Let_def)

lemma swap_Suc_nth:
  assumes "Suc k < length xs"
  shows "swap xs (Suc k) k ! k = xs ! Suc k" "swap xs (Suc k) k ! Suc k = xs ! k"
    "\<And>j. j < k \<Longrightarrow> swap xs (Suc k) k ! j = xs ! j"
  using assms by (simp_all add: swap_def Let_def)

lemma swap_back_Suc:
  assumes "Suc k < length xs"
  shows "swap (swap xs (Suc k) k) k (Suc k) = xs"
proof -
  have "swap (swap xs (Suc k) k) k (Suc k)
          = (((xs[Suc k := xs ! k])[k := xs ! Suc k])[k := xs ! k])[Suc k := xs ! Suc k]"
    using assms by (simp add: swap_def Let_def)
  also have "\<dots> = ((xs[Suc k := xs ! k])[k := xs ! k])[Suc k := xs ! Suc k]"
    by simp
  also have "\<dots> = ((xs[k := xs ! k])[Suc k := xs ! k])[Suc k := xs ! Suc k]"
    by (simp add: list_update_swap)
  also have "\<dots> = xs" by simp
  finally show ?thesis .
qed


lemma index_after_up:
  assumes "x \<in> set xs" "index xs x = Suc k"
  shows "index (swap xs (Suc k) k) x = k"
proof (rule index_eqI)
  have il: "Suc k < length xs" using index_less [OF assms(1)] assms(2) by simp
  show "k < length (swap xs (Suc k) k)" using il by (simp add: length_swap)
  show "swap xs (Suc k) k ! k = x"
    using swap_Suc_nth(1) [OF il] nth_index [OF assms(1)] assms(2) by simp
  show "swap xs (Suc k) k ! j \<noteq> x" if "j < k" for j
    using swap_Suc_nth(3) [OF il that] before_index [of j xs x] that assms(2) by simp
qed

lemma set_swap_Suc: "Suc k < length xs \<Longrightarrow> set (swap xs (Suc k) k) = set xs"
  by (simp add: swap_def Let_def set_swap)

lemma get_display_order_log:
  "snd (get_display_order tool lang log) = log @ [[bcdedit, ''/enum'', ''{bootmgr}'']]"
  by (simp add: get_display_order_def subprocess_run_def split: run_result.splits)

text \<open>
  Claim C3 as stated, that moving up and then down restores the order for every
  identifier present at a non-boundary position and that moving down is a no-op for an
  identifier at the last position, fails for an order with duplicates: the functions locate an identifier
  by its first occurrence. In the order below \<open>{bb}\<close> is present at the positions 0, 2
  and 4; \<open>move_entry_up\<close> does nothing, and \<open>move_entry_down\<close> then writes another
  order.
\<close>

theorem move_duplicate_counterexample:
  "fst (get_display_order dup_tool EN []) = [''{bb}'', ''{aa}'', ''{bb}'', ''{cc}'', ''{bb}''] \<and>
   move_entry_up dup_tool EN ''{bb}'' [] = (True, [[bcdedit, ''/enum'', ''{bootmgr}'']]) \<and>
   move_entry_down dup_tool EN ''{bb}'' [[bcdedit, ''/enum'', ''{bootmgr}'']]
     = (True, [[bcdedit, ''/enum'', ''{bootmgr}''], [bcdedit, ''/enum'', ''{bootmgr}''],
               clear_order_cmd,
               [bcdedit, ''/displayorder'', ''{aa}'', ''{bb}'', ''{bb}'', ''{cc}'', ''{bb}'']])"
  by code_simp

text \<open>
  Claim C3, amended. Positions are those of the first occurrence of the identifier, as
  \<open>index\<close> finds it. When that position is neither the first nor the last,
  \<open>move_entry_up\<close> writes the order with the entry swapped one place up, and, the tool
  reporting that order on the next read, \<open>move_entry_down\<close> writes the original order
  back. For an identifier at the first position \<open>move_entry_up\<close> returns True and makes
  no invocation besides the read; so does \<open>move_entry_down\<close> for an identifier whose
  first occurrence is the last position.
\<close>

theorem move_up_then_down:
  "(get_display_order tool lang log = (display_order, log1) \<longrightarrow>
    identifier \<in> set display_order \<longrightarrow>
    0 < index display_order identifier \<longrightarrow>
    index display_order identifier < length display_order - 1 \<longrightarrow>
    move_entry_up tool lang identifier log = (moved, log2) \<longrightarrow>
    get_display_order tool lang log2
      = (swap display_order (index display_order identifier)
           (index display_order identifier - 1), log3) \<longrightarrow>
    move_entry_up tool lang identifier log
      = set_display_order tool
          (swap display_order (index display_order identifier)
             (index display_order identifier - 1)) log1 \<and>
    move_entry_down tool lang identifier log2 = set_display_order tool display_order log3) \<and>
   (get_display_order tool lang log = (display_order, log1) \<longrightarrow>
    display_order \<noteq> [] \<longrightarrow> hd display_order = identifier \<longrightarrow>
    move_entry_up tool lang identifier log
      = (True, log @ [[bcdedit, ''/enum'', ''{bootmgr}'']])) \<and>
   (get_display_order tool lang log = (display_order, log1) \<longrightarrow>
    identifier \<in> set display_order \<longrightarrow>
    index display_order identifier = length display_order - 1 \<longrightarrow>
    move_entry_down tool lang identifier log
      = (True, log @ [[bcdedit, ''/enum'', ''{bootmgr}'']]))"
proof (intro conjI impI)
  assume g: "get_display_order tool lang log = (display_order, log1)"
    and mem: "identifier \<in> set display_order"
    and pos: "0 < index display_order identifier"
    and g2: "get_display_order tool lang log2
      = (swap display_order (index display_order identifier)
           (index display_order identifier - 1), log3)"
  obtain k where k: "index display_order identifier = Suc k"
    using pos by (cases "index display_order identifier") auto
  have il: "Suc k < length display_order" using index_less [OF mem] k by simp
  show "move_entry_up tool lang identifier log
      = set_display_order tool
          (swap display_order (index display_order identifier)
             (index display_order identifier - 1)) log1"
    using g mem k by (auto simp: move_entry_up_def)
  have ne: "swap display_order (Suc k) k \<noteq> []"
    using il length_swap [of display_order "Suc k" k] by auto
  have mem2: "identifier \<in> set (swap display_order (Suc k) k)"
    using mem set_swap_Suc [OF il] by simp
  have idx: "index (swap display_order (Suc k) k) identifier = k"
    using index_after_up [OF mem k] .
  have notlast: "k \<noteq> length (swap display_order (Suc k) k) - 1"
    using il by (simp add: length_swap)
  show "move_entry_down tool lang identifier log2 = set_display_order tool display_order log3"
    using g2 ne mem2 idx notlast swap_back_Suc [OF il]
    by (simp add: move_entry_down_def k)
next
  assume g: "get_display_order tool lang log = (display_order, log1)"
    and ne: "display_order \<noteq> []" and h: "hd display_order = identifier"
  have "index display_order identifier = 0"
    using ne h unfolding index_def by (cases display_order) auto
  moreover have "identifier \<in> set display_order" using ne h by (cases display_order) auto
  moreover have "log1 = log @ [[bcdedit, ''/enum'', ''{bootmgr}'']]"
    using get_display_order_log [of tool lang log] g by simp
  ultimately show "move_entry_up tool lang identifier log
      = (True, log @ [[bcdedit, ''/enum'', ''{bootmgr}'']])"
    using g ne by (simp add: move_entry_up_def)
next
  assume g: "get_display_order tool lang log = (display_order, log1)"
    and mem: "identifier \<in> set display_order"
    and last: "index display_order identifier = length display_order - 1"
  have "log1 = log @ [[bcdedit, ''/enum'', ''{bootmgr}'']]"
    using get_display_order_log [of tool lang log] g by simp
  then show "move_entry_down tool lang identifier log
      = (True, log @ [[bcdedit, ''/enum'', ''{bootmgr}'']])"
    using g mem last by (auto simp: move_entry_down_def)
qed

theorem move_up_then_down_witness:
  "move_entry_up store_tool EN ''{bb}'' []
     = (True, [[bcdedit, ''/enum'', ''{bootmgr}''], clear_order_cmd,
               [bcdedit, ''/displayorder'', ''{bb}'', ''{aa}'', ''{cc}'']]) \<and>
   move_entry_down store_tool EN ''{bb}''
       [[bcdedit, ''/enum'', ''{bootmgr}''], clear_order_cmd,
        [bcdedit, ''/displayorder'', ''{bb}'', ''{aa}'', ''{cc}'']]
     = set_display_order store_tool [''{aa}'', ''{bb}'', ''{cc}'']
         [[bcdedit, ''/enum'', ''{bootmgr}''], clear_order_cmd,
          [bcdedit, ''/displayorder'', ''{bb}'', ''{aa}'', ''{cc}''],
          [bcdedit, ''/enum'', ''{bootmgr}'']] \<and>
   move_entry_up store_tool EN ''{aa}'' [] = (True, [[bcdedit, ''/enum'', ''{bootmgr}'']]) \<and>
   move_entry_down store_tool EN ''{cc}'' [] = (True, [[bcdedit, ''/enum'', ''{bootmgr}'']])"
proof -
  let ?e = "[bcdedit, ''/enum'', ''{bootmgr}'']"
  let ?l2 = "[?e, clear_order_cmd, [bcdedit, ''/displayorder'', ''{bb}'', ''{aa}'', ''{cc}'']]"
  have g: "get_display_order store_tool EN [] = ([''{aa}'', ''{bb}'', ''{cc}''], [?e])"
    by code_simp
  have i: "index [''{aa}'', ''{bb}'', ''{cc}''] ''{bb}'' = 1"
    "index [''{aa}'', ''{bb}'', ''{cc}''] ''{cc}'' = 2"
    by (simp_all add: index_def)
  have u: "move_entry_up store_tool EN ''{bb}'' [] = (True, ?l2)"
    by code_simp
  have g2: "get_display_order store_tool EN ?l2
      = (swap [''{aa}'', ''{bb}'', ''{cc}''] 1 0, ?l2 @ [?e])"
    by code_simp
  show ?thesis
    using move_up_then_down [of store_tool EN "[]" "[''{aa}'', ''{bb}'', ''{cc}'']" "[?e]"
        "''{bb}''" True ?l2 "?l2 @ [?e]"]
      move_up_then_down [of store_tool EN "[]" "[''{aa}'', ''{bb}'', ''{cc}'']" "[?e]"
        "''{aa}''" True ?l2 "?l2 @ [?e]"]
      move_up_then_down [of store_tool EN "[]" "[''{aa}'', ''{bb}'', ''{cc}'']" "[?e]"
        "''{cc}''" True ?l2 "?l2 @ [?e]"]
      g i u g2
    by simp
qed

subsection \<open>Identifiers found by the patterns\<close>

lemma is_identifier_iff:
  "is_identifier w \<longleftrightarrow>
     (\<exists>h. w = CHR ''{'' # h @ [CHR ''}''] \<and> h \<noteq> [] \<and> list_all hexdash h)"
proof
  assume a: "is_identifier w"
  then obtain r where w: "w = CHR ''{'' # r" and r: "r \<noteq> []" "last r = CHR ''}''"
    "butlast r \<noteq> []" "list_all hexdash (butlast r)"
    by (auto simp: is_identifier_def split: list.splits)
  have "r = butlast r @ [CHR ''}'']" using r(1,2) by (metis append_butlast_last_id)
  with w r show "\<exists>h. w = CHR ''{'' # h @ [CHR ''}''] \<and> h \<noteq> [] \<and> list_all hexdash h"
    by metis
next
  assume "\<exists>h. w = CHR ''{'' # h @ [CHR ''}''] \<and> h \<noteq> [] \<and> list_all hexdash h"
  then show "is_identifier w" by (auto simp: is_identifier_def)
qed

lemma not_hexdash_brace: "\<not> hexdash CHR ''}''" "\<not> hexdash CHR ''{''"
  by (simp_all add: hexdash_def)

lemma first_some_only:
  "(\<And>k. k \<in> set ks \<Longrightarrow> k \<noteq> n \<Longrightarrow> f k = None) \<Longrightarrow>
     first_some f ks = (if n \<in> set ks then f n else None)"
proof (induction ks)
  case Nil
  then show ?case by simp
next
  case (Cons a ks)
  have ih: "first_some f ks = (if n \<in> set ks then f n else None)"
    using Cons.prems by (intro Cons.IH) simp
  show ?case
  proof (cases "a = n")
    case True
    then show ?thesis using ih by (cases "f n") auto
  next
    case False
    then have "f a = None" using Cons.prems [of a] by simp
    then show ?thesis using ih False by simp
  qed
qed

lemma rmatch_once:
  "rmatch (Chars p Once # its) s =
     (case s of [] \<Rightarrow> None
      | c # r \<Rightarrow> if p c then map_option (Cons [c]) (rmatch its r) else None)"
  by (cases s) (auto simp: run_lengths_def split: option.splits)

lemma rmatch_lit:
  "rmatch [lit k] t = (case t of [] \<Rightarrow> None | c # r \<Rightarrow> if c = k then Some [[k]] else None)"
  by (cases t) (simp_all add: lit_def run_lengths_def)

lemma rmatch_hex_close:
  "rmatch [Chars hexdash OneOrMore, lit CHR ''}''] s =
     (let n = length (takeWhile hexdash s)
      in if 0 < n \<and> n < length s \<and> s ! n = CHR ''}'' then Some [take n s, ''}''] else None)"
proof -
  let ?n = "length (takeWhile hexdash s)"
  let ?f = "\<lambda>k. map_option (Cons (take k s)) (rmatch [lit CHR ''}''] (drop k s))"
  have nle: "?n \<le> length s" by (rule length_takeWhile_le)
  have none: "?f k = None" if "k \<in> set (rev [1..<Suc ?n])" "k \<noteq> ?n" for k
  proof -
    from that have kn: "k < ?n" by auto
    then have "takeWhile hexdash s ! k \<in> set (takeWhile hexdash s)" by (rule nth_mem)
    then have "hexdash (takeWhile hexdash s ! k)" by (auto dest: set_takeWhileD)
    moreover have "takeWhile hexdash s ! k = s ! k" using kn by (rule takeWhile_nth)
    ultimately have "s ! k \<noteq> CHR ''}''" using not_hexdash_brace(1) by auto
    moreover have "drop k s = s ! k # drop (Suc k) s"
      using kn nle by (simp add: Cons_nth_drop_Suc)
    ultimately show ?thesis by (simp add: rmatch_lit)
  qed
  have "rmatch [Chars hexdash OneOrMore, lit CHR ''}''] s = first_some ?f (rev [1..<Suc ?n])"
    by (simp add: run_lengths_def)
  also have "\<dots> = (if ?n \<in> set (rev [1..<Suc ?n]) then ?f ?n else None)"
    using none by (rule first_some_only)
  also have "\<dots> = (if 0 < ?n \<and> ?n < length s \<and> s ! ?n = CHR ''}''
                   then Some [take ?n s, ''}''] else None)"
  proof (cases "?n < length s")
    case True
    then have "drop ?n s = s ! ?n # drop (Suc ?n) s" by (simp add: Cons_nth_drop_Suc)
    then show ?thesis using True by (auto simp: rmatch_lit Suc_le_eq)
  next
    case False
    then have "drop ?n s = []" by simp
    then show ?thesis using False by (simp add: rmatch_lit)
  qed
  finally show ?thesis by (simp add: Let_def)
qed

lemma rmatch_identifier:
  "rmatch identifier_pattern s =
     (case s of
        [] \<Rightarrow> None
      | c # r \<Rightarrow>
          if c = CHR ''{'' then
            map_option (Cons ''{'') (rmatch [Chars hexdash OneOrMore, lit CHR ''}''] r)
          else None)"
proof (cases s)
  case Nil
  then show ?thesis by (simp only: identifier_pattern_def lit_def rmatch_once list.case)
next
  case (Cons c r)
  show ?thesis
  proof (cases "c = CHR ''{''")
    case True
    then show ?thesis
      unfolding Cons by (simp only: identifier_pattern_def lit_def rmatch_once list.case if_True)
  next
    case False
    then show ?thesis
      unfolding Cons by (simp only: identifier_pattern_def lit_def rmatch_once list.case if_False)
  qed
qed


declare rmatch.simps [simp del]

lemma startswith_append: "startswith s w \<longleftrightarrow> (\<exists>post. s = w @ post)"
proof
  assume "startswith s w"
  then have "s = w @ drop (length w) s"
    unfolding startswith_def by (metis append_take_drop_id)
  then show "\<exists>post. s = w @ post" ..
next
  assume "\<exists>post. s = w @ post"
  then show "startswith s w" by (auto simp: startswith_def)
qed

lemma takeWhile_stop:
  "list_all P h \<Longrightarrow> \<not> P x \<Longrightarrow> takeWhile P (h @ x # t) = h"
  by (induction h) auto

lemma identifier_at_iff:
  "group_all (rmatch identifier_pattern s) = Some w \<longleftrightarrow> is_identifier w \<and> startswith s w"
proof
  assume a: "group_all (rmatch identifier_pattern s) = Some w"
  then obtain r where s: "s = CHR ''{'' # r"
    by (cases s) (auto simp: group_all_def rmatch_identifier split: if_splits)
  let ?n = "length (takeWhile hexdash r)"
  from a s have n: "0 < ?n" "?n < length r" "r ! ?n = CHR ''}''"
    and w: "w = CHR ''{'' # take ?n r @ ''}''"
    by (auto simp: group_all_def rmatch_identifier rmatch_hex_close Let_def split: if_splits)
  have h: "take ?n r = takeWhile hexdash r" by (rule takeWhile_eq_take [symmetric])
  have "list_all hexdash (take ?n r)"
    unfolding h by (auto simp: list_all_iff dest: set_takeWhileD)
  moreover have "take ?n r \<noteq> []" using n by auto
  ultimately have "is_identifier w" unfolding is_identifier_iff w by blast
  moreover have "r = take ?n r @ r ! ?n # drop (Suc ?n) r"
    using n(2) by (rule id_take_nth_drop)
  then have "s = w @ drop (Suc ?n) r" unfolding s w using n(3) by simp
  then have "startswith s w" unfolding startswith_append ..
  ultimately show "is_identifier w \<and> startswith s w" ..
next
  assume "is_identifier w \<and> startswith s w"
  then obtain h post where w: "w = CHR ''{'' # h @ ''}''" and h: "h \<noteq> []" "list_all hexdash h"
    and s: "s = w @ post"
    unfolding is_identifier_iff startswith_append by auto
  let ?r = "h @ CHR ''}'' # post"
  have t: "takeWhile hexdash ?r = h"
    using h(2) not_hexdash_brace(1) by (rule takeWhile_stop)
  have "rmatch [Chars hexdash OneOrMore, lit CHR ''}''] ?r = Some [h, ''}'']"
    unfolding rmatch_hex_close t using h(1) by (simp add: nth_append)
  then show "group_all (rmatch identifier_pattern s) = Some w"
    unfolding s w by (simp add: rmatch_identifier group_all_def)
qed

lemma identifier_at_unique:
  "is_identifier a \<Longrightarrow> startswith s a \<Longrightarrow> is_identifier b \<Longrightarrow> startswith s b \<Longrightarrow> a = b"
  using identifier_at_iff [of s a] identifier_at_iff [of s b] by simp

lemma identifier_not_empty: "is_identifier w \<Longrightarrow> w \<noteq> []"
  by (auto simp: is_identifier_def)

lemma no_identifier_at:
  "c \<noteq> CHR ''{'' \<Longrightarrow> rmatch identifier_pattern (c # cs) = None"
  by (simp add: rmatch_identifier)

lemma findall_skip:
  "CHR ''{'' \<notin> set u \<Longrightarrow>
     re_findall identifier_pattern (u @ rest) = re_findall identifier_pattern rest"
proof (induction u)
  case Nil
  then show ?case by simp
next
  case (Cons a u)
  then have "a \<noteq> CHR ''{''" by auto
  then have "rmatch identifier_pattern (a # u @ rest) = None" by (rule no_identifier_at)
  then show ?case using Cons by simp
qed

lemma findall_step:
  "re_findall identifier_pattern (c # cs) =
     (case group_all (rmatch identifier_pattern (c # cs)) of
        Some w \<Rightarrow> w # re_findall identifier_pattern cs
      | None \<Rightarrow> re_findall identifier_pattern cs)"
proof (cases "group_all (rmatch identifier_pattern (c # cs))")
  case None
  then show ?thesis by (simp add: group_all_def)
next
  case (Some w)
  then obtain gs where gs: "rmatch identifier_pattern (c # cs) = Some gs" "w = concat gs"
    by (auto simp: group_all_def)
  from Some obtain h post where w: "w = CHR ''{'' # h @ ''}''" and h: "list_all hexdash h"
    and s: "c # cs = w @ post"
    unfolding identifier_at_iff is_identifier_iff startswith_append by auto
  have cs: "cs = (h @ ''}'') @ post" using s w by simp
  have "CHR ''{'' \<notin> set (h @ ''}'')"
    using h not_hexdash_brace(2) by (auto simp: list_all_iff)
  then have "re_findall identifier_pattern cs = re_findall identifier_pattern post"
    unfolding cs by (rule findall_skip)
  moreover have "drop (length w - 1) cs = post" unfolding cs w by simp
  ultimately show ?thesis using gs Some by simp
qed

lemma findall_empty: "re_findall identifier_pattern [] = []"
  by (simp add: rmatch_identifier)

declare re_findall.simps [simp del]

lemma occurs_Cons:
  "(\<exists>pre post. c # cs = pre @ w @ post) \<longleftrightarrow>
     startswith (c # cs) w \<or> (\<exists>pre post. cs = pre @ w @ post)"
proof
  assume "\<exists>pre post. c # cs = pre @ w @ post"
  then obtain pre post where e: "c # cs = pre @ w @ post" by blast
  show "startswith (c # cs) w \<or> (\<exists>pre post. cs = pre @ w @ post)"
  proof (cases pre)
    case Nil
    then show ?thesis using e unfolding startswith_append by auto
  next
    case (Cons x pre')
    then have "cs = pre' @ w @ post" using e by simp
    then show ?thesis by blast
  qed
next
  assume "startswith (c # cs) w \<or> (\<exists>pre post. cs = pre @ w @ post)"
  then show "\<exists>pre post. c # cs = pre @ w @ post"
  proof
    assume "startswith (c # cs) w"
    then obtain post where "c # cs = [] @ w @ post" unfolding startswith_append by auto
    then show ?thesis by blast
  next
    assume "\<exists>pre post. cs = pre @ w @ post"
    then obtain pre post where "cs = pre @ w @ post" by blast
    then have "c # cs = (c # pre) @ w @ post" by simp
    then show ?thesis by blast
  qed
qed

lemma set_findall:
  "w \<in> set (re_findall identifier_pattern s) \<longleftrightarrow>
     is_identifier w \<and> (\<exists>pre post. s = pre @ w @ post)"
proof (induction s)
  case Nil
  show ?case using identifier_not_empty [of w] unfolding findall_empty by auto
next
  case (Cons c cs)
  show ?case
  proof (cases "group_all (rmatch identifier_pattern (c # cs))")
    case None
    then have "\<not> (is_identifier w \<and> startswith (c # cs) w)"
      using identifier_at_iff [of "c # cs" w] by simp
    moreover have "re_findall identifier_pattern (c # cs) = re_findall identifier_pattern cs"
      using None by (simp add: findall_step)
    ultimately show ?thesis
      unfolding occurs_Cons using Cons.IH by auto
  next
    case (Some v)
    then have v: "is_identifier v" "startswith (c # cs) v"
      using identifier_at_iff [of "c # cs" v] by simp_all
    have "is_identifier w \<and> startswith (c # cs) w \<longleftrightarrow> w = v"
      using v identifier_at_unique [of w "c # cs" v] by auto
    moreover have "re_findall identifier_pattern (c # cs) = v # re_findall identifier_pattern cs"
      using Some by (simp add: findall_step)
    ultimately show ?thesis
      unfolding occurs_Cons using Cons.IH by auto
  qed
qed


lemma index_Cons: "index (x # xs) a = (if a = x then 0 else Suc (index xs a))"
  by (auto simp: index_def)

lemma unique_append_props:
  "distinct acc \<Longrightarrow>
     \<exists>ys. unique_append acc xs = acc @ ys \<and> distinct (acc @ ys) \<and>
          set ys = set xs - set acc \<and>
          sorted_wrt (\<lambda>a b. index xs a < index xs b) ys"
proof (induction xs arbitrary: acc)
  case Nil
  then show ?case by simp
next
  case (Cons x xs)
  show ?case
  proof (cases "x \<in> set acc")
    case True
    from Cons.IH [OF Cons.prems] obtain ys where ys:
      "unique_append acc xs = acc @ ys" "distinct (acc @ ys)" "set ys = set xs - set acc"
      "sorted_wrt (\<lambda>a b. index xs a < index xs b) ys" by blast
    have "a \<noteq> x" if "a \<in> set ys" for a using that ys(3) True by auto
    then have "sorted_wrt (\<lambda>a b. index (x # xs) a < index (x # xs) b) ys"
      using ys(4) by (intro sorted_wrt_mono_rel [OF _ ys(4)]) (simp add: index_Cons)
    moreover have "set ys = set (x # xs) - set acc" using ys(3) True by auto
    ultimately show ?thesis using ys(1,2) True by auto
  next
    case False
    then have d: "distinct (acc @ [x])" using Cons.prems by simp
    from Cons.IH [OF d] obtain ys where ys:
      "unique_append (acc @ [x]) xs = (acc @ [x]) @ ys" "distinct ((acc @ [x]) @ ys)"
      "set ys = set xs - set (acc @ [x])"
      "sorted_wrt (\<lambda>a b. index xs a < index xs b) ys" by blast
    have ne: "a \<noteq> x" if "a \<in> set ys" for a using that ys(3) by auto
    then have "sorted_wrt (\<lambda>a b. index (x # xs) a < index (x # xs) b) ys"
      by (intro sorted_wrt_mono_rel [OF _ ys(4)]) (simp add: index_Cons)
    then have "sorted_wrt (\<lambda>a b. index (x # xs) a < index (x # xs) b) (x # ys)"
      using ne by (auto simp: index_Cons)
    moreover have "set (x # ys) = set (x # xs) - set acc" using ys(3) False by auto
    moreover have "unique_append acc (x # xs) = acc @ x # ys" using ys(1) False by simp
    moreover have "distinct (acc @ x # ys)" using ys(2) by simp
    ultimately show ?thesis by blast
  qed
qed

lemma unique_append_first_seen:
  "distinct (unique_append [] xs) \<and> set (unique_append [] xs) = set xs \<and>
   sorted_wrt (\<lambda>a b. index xs a < index xs b) (unique_append [] xs)"
  using unique_append_props [of "[]" xs] by auto

lemma first_pos_occurs:
  "\<exists>pre post. s = pre @ w @ post \<Longrightarrow>
     \<exists>pre post. s = pre @ w @ post \<and> length pre = first_pos w s"
proof (induction s)
  case Nil
  then show ?case by auto
next
  case (Cons c cs)
  show ?case
  proof (cases "startswith (c # cs) w")
    case True
    then obtain post where "c # cs = [] @ w @ post" unfolding startswith_append by auto
    then show ?thesis using True by (metis first_pos.simps(2) list.size(3))
  next
    case False
    then have "\<exists>pre post. cs = pre @ w @ post" using Cons.prems occurs_Cons by blast
    from Cons.IH [OF this] obtain pre post where
      "cs = pre @ w @ post" "length pre = first_pos w cs" by blast
    then have "c # cs = (c # pre) @ w @ post \<and> length (c # pre) = first_pos w (c # cs)"
      using False by simp
    then show ?thesis by blast
  qed
qed

lemma first_pos_least: "first_pos w (pre @ w @ post) \<le> length pre"
proof (induction pre)
  case Nil
  show ?case
  proof (cases "w @ post")
    case Nil
    then show ?thesis by simp
  next
    case (Cons c cs)
    have "startswith (w @ post) w" unfolding startswith_append by blast
    then show ?thesis using Cons by simp
  qed
next
  case (Cons x pre)
  then show ?case by simp
qed

lemma findall_order:
  "a \<in> set (re_findall identifier_pattern s) \<Longrightarrow>
   b \<in> set (re_findall identifier_pattern s) \<Longrightarrow>
   index (re_findall identifier_pattern s) a < index (re_findall identifier_pattern s) b \<Longrightarrow>
   first_pos a s < first_pos b s"
proof (induction s)
  case Nil
  then show ?case by (simp add: findall_empty)
next
  case (Cons c cs)
  have ia: "is_identifier a" and ib: "is_identifier b"
    using Cons.prems(1,2) set_findall by blast+
  show ?case
  proof (cases "group_all (rmatch identifier_pattern (c # cs))")
    case None
    then have F: "re_findall identifier_pattern (c # cs) = re_findall identifier_pattern cs"
      by (simp add: findall_step)
    have "\<not> startswith (c # cs) a" "\<not> startswith (c # cs) b"
      using None ia ib identifier_at_iff [of "c # cs"] by auto
    then show ?thesis using Cons.IH Cons.prems unfolding F by simp
  next
    case (Some v)
    then have F: "re_findall identifier_pattern (c # cs) = v # re_findall identifier_pattern cs"
      by (simp add: findall_step)
    have st: "startswith (c # cs) w \<longleftrightarrow> w = v" if "is_identifier w" for w
      using Some that identifier_at_iff [of "c # cs" w] by auto
    show ?thesis
    proof (cases "a = v")
      case True
      then have "b \<noteq> v" using Cons.prems(3) by auto
      then show ?thesis using True st [OF ia] st [OF ib] by simp
    next
      case False
      then have bv: "b \<noteq> v" using Cons.prems(3) unfolding F by (auto simp: index_Cons)
      have "first_pos a cs < first_pos b cs"
        using Cons.IH Cons.prems False bv unfolding F by (simp add: index_Cons)
      then show ?thesis using False bv st [OF ia] st [OF ib] by simp
    qed
  qed
qed

lemma list_identifiers_eq:
  "tool log [bcdedit, ''/enum'', ''/v''] = Completed 0 out err \<Longrightarrow>
     fst (list_identifiers tool log) = unique_append [] (re_findall identifier_pattern out)"
  by (simp add: list_identifiers_def get_entries_def subprocess_run_def findall_empty)

lemma first_identifier_first:
  "is_identifier w \<Longrightarrow>
   (\<And>pre' w' post'. is_identifier w' \<Longrightarrow> pre @ w @ post = pre' @ w' @ post'
      \<Longrightarrow> length pre \<le> length pre') \<Longrightarrow>
   first_identifier (pre @ w @ post) = Some w"
proof (induction pre)
  case Nil
  obtain c cs where s: "w @ post = c # cs"
    using identifier_not_empty [OF Nil(1)] by (cases "w @ post") auto
  have "startswith (w @ post) w" unfolding startswith_append by blast
  then have "group_all (rmatch identifier_pattern (c # cs)) = Some w"
    using Nil(1) identifier_at_iff [of "w @ post" w] s by simp
  then show ?case
    using s by (auto simp: first_identifier_def group_all_def)
next
  case (Cons x pre)
  have none: "rmatch identifier_pattern (x # pre @ w @ post) = None"
  proof (cases "rmatch identifier_pattern (x # pre @ w @ post)")
    case None
    then show ?thesis .
  next
    case (Some gs)
    then have "group_all (rmatch identifier_pattern (x # pre @ w @ post)) = Some (concat gs)"
      by (simp add: group_all_def)
    then have i: "is_identifier (concat gs)" and "startswith (x # pre @ w @ post) (concat gs)"
      unfolding identifier_at_iff by simp_all
    then obtain post' where "(x # pre) @ w @ post = [] @ concat gs @ post'"
      unfolding startswith_append by auto
    from Cons.prems(2) [OF i this] show ?thesis by simp
  qed
  have "first_identifier (pre @ w @ post) = Some w"
  proof (rule Cons.IH [OF Cons.prems(1)])
    fix pre' w' post'
    assume a: "is_identifier w'" "pre @ w @ post = pre' @ w' @ post'"
    then have "(x # pre) @ w @ post = (x # pre') @ w' @ post'" by simp
    from Cons.prems(2) [OF a(1) this] show "length pre \<le> length pre'" by simp
  qed
  then show ?case using none by (simp add: first_identifier_def)
qed

lemma first_identifier_sound:
  "first_identifier s = Some w \<Longrightarrow>
     is_identifier w \<and>
     (\<exists>pre post. s = pre @ w @ post \<and>
        (\<forall>pre' w' post'. is_identifier w' \<longrightarrow> s = pre' @ w' @ post'
           \<longrightarrow> length pre \<le> length pre'))"
proof (induction s)
  case Nil
  then show ?case by (simp add: first_identifier_def group_all_def rmatch_identifier)
next
  case (Cons c cs)
  show ?case
  proof (cases "rmatch identifier_pattern (c # cs)")
    case (Some gs)
    then have "w = concat gs" using Cons.prems by (simp add: first_identifier_def group_all_def)
    then have "group_all (rmatch identifier_pattern (c # cs)) = Some w"
      using Some by (simp add: group_all_def)
    then have i: "is_identifier w" and "startswith (c # cs) w"
      unfolding identifier_at_iff by simp_all
    then obtain post where "c # cs = [] @ w @ post" unfolding startswith_append by auto
    then have "c # cs = [] @ w @ post \<and>
        (\<forall>pre' w' post'. is_identifier w' \<longrightarrow> c # cs = pre' @ w' @ post'
           \<longrightarrow> length ([] :: string) \<le> length pre')" by simp
    with i show ?thesis by blast
  next
    case None
    then have "first_identifier cs = Some w"
      using Cons.prems by (simp add: first_identifier_def)
    from Cons.IH [OF this] obtain pre post where i: "is_identifier w"
      and e: "cs = pre @ w @ post"
      and m: "\<And>pre' w' post'. is_identifier w' \<Longrightarrow> cs = pre' @ w' @ post'
           \<Longrightarrow> length pre \<le> length pre'" by blast
    have "length (c # pre) \<le> length pre'"
      if a: "is_identifier w'" "c # cs = pre' @ w' @ post'" for pre' w' post'
    proof (cases pre')
      case Nil
      then have "startswith (c # cs) w'" using a(2) unfolding startswith_append by auto
      then have "group_all (rmatch identifier_pattern (c # cs)) = Some w'"
        using a(1) identifier_at_iff by blast
      then show ?thesis using None by (simp add: group_all_def)
    next
      case (Cons x pre'')
      then have "cs = pre'' @ w' @ post'" using a(2) by simp
      from m [OF a(1) this] show ?thesis using Cons by simp
    qed
    moreover have "c # cs = (c # pre) @ w @ post" using e by simp
    ultimately show ?thesis using i by blast
  qed
qed

subsection \<open>Listing the identifiers\<close>

text \<open>
  Claim C6. When the enumeration succeeds with the text \<open>out\<close>, \<open>list_identifiers\<close>
  returns every brace-delimited identifier that occurs in \<open>out\<close>, each once, ordered by
  first occurrence: an earlier element of the result occurs at a position before every
  occurrence of a later one. When the enumeration cannot be started or exits with a
  non-zero code, the result is the empty list.
\<close>

theorem list_identifiers_first_seen:
  "(tool log [bcdedit, ''/enum'', ''/v''] = Completed 0 out err \<longrightarrow>
      distinct (fst (list_identifiers tool log)) \<and>
      set (fst (list_identifiers tool log))
        = {w. is_identifier w \<and> (\<exists>pre post. out = pre @ w @ post)} \<and>
      (\<forall>i j. i < j \<longrightarrow> j < length (fst (list_identifiers tool log)) \<longrightarrow>
         (\<exists>pre post. out = pre @ fst (list_identifiers tool log) ! i @ post \<and>
            (\<forall>pre' post'. out = pre' @ fst (list_identifiers tool log) ! j @ post'
               \<longrightarrow> length pre < length pre')))) \<and>
   (tool log [bcdedit, ''/enum'', ''/v''] = Raises \<or>
    (\<exists>returncode out err.
       tool log [bcdedit, ''/enum'', ''/v''] = Completed returncode out err \<and> returncode \<noteq> 0)
    \<longrightarrow> list_identifiers tool log = ([], log @ [[bcdedit, ''/enum'', ''/v'']]))"
proof (intro conjI impI allI)
  assume ok: "tool log [bcdedit, ''/enum'', ''/v''] = Completed 0 out err"
  let ?F = "re_findall identifier_pattern out"
  let ?ids = "fst (list_identifiers tool log)"
  have ids: "?ids = unique_append [] ?F" using ok by (rule list_identifiers_eq)
  show "distinct ?ids" unfolding ids using unique_append_first_seen [of ?F] by simp
  show "set ?ids = {w. is_identifier w \<and> (\<exists>pre post. out = pre @ w @ post)}"
    unfolding ids using unique_append_first_seen [of ?F] set_findall [of _ out] by auto
  fix i j
  assume ij: "i < j" and jl: "j < length ?ids"
  let ?a = "?ids ! i" and ?b = "?ids ! j"
  have sw: "sorted_wrt (\<lambda>a b. index ?F a < index ?F b) ?ids"
    unfolding ids using unique_append_first_seen [of ?F] by simp
  have lt: "index ?F ?a < index ?F ?b"
    using sw ij jl by (simp add: sorted_wrt_iff_nth_less)
  have mem: "?a \<in> set ?F" "?b \<in> set ?F"
    using unique_append_first_seen [of ?F] ij jl nth_mem [of i ?ids] nth_mem [of j ?ids]
    unfolding ids by auto
  have fp: "first_pos ?a out < first_pos ?b out"
    using mem lt by (rule findall_order)
  have "\<exists>pre post. out = pre @ ?a @ post" using mem(1) set_findall by blast
  from first_pos_occurs [OF this] obtain pre post where
    p: "out = pre @ ?a @ post" "length pre = first_pos ?a out" by blast
  have "length pre < length pre'" if "out = pre' @ ?b @ post'" for pre' post'
    using first_pos_least [of ?b pre' post'] that fp p(2) by simp
  with p(1) show "\<exists>pre post. out = pre @ ?a @ post \<and>
      (\<forall>pre' post'. out = pre' @ ?b @ post' \<longrightarrow> length pre < length pre')"
    by blast
next
  assume "tool log [bcdedit, ''/enum'', ''/v''] = Raises \<or>
    (\<exists>returncode out err.
       tool log [bcdedit, ''/enum'', ''/v''] = Completed returncode out err \<and> returncode \<noteq> 0)"
  then show "list_identifiers tool log = ([], log @ [[bcdedit, ''/enum'', ''/v'']])"
    by (auto simp: list_identifiers_def get_entries_def subprocess_run_def)
qed

theorem list_identifiers_first_seen_witness:
  "fst (list_identifiers (scripted [Completed 0 enum_dump []]) [])
     = [''{9dea862c-5cdd}'', ''{aa-01}'', ''{bb-02}''] \<and>
   distinct (fst (list_identifiers (scripted [Completed 0 enum_dump []]) [])) \<and>
   list_identifiers (scripted [Completed 1 [] ''denied'']) []
     = ([], [[bcdedit, ''/enum'', ''/v'']])"
proof -
  have v: "fst (list_identifiers (scripted [Completed 0 enum_dump []]) [])
     = [''{9dea862c-5cdd}'', ''{aa-01}'', ''{bb-02}'']"
    by code_simp
  have h: "scripted [Completed 0 enum_dump []] [] [bcdedit, ''/enum'', ''/v'']
     = Completed 0 enum_dump []"
    by (simp add: scripted_def)
  have h2: "scripted [Completed 1 [] ''denied''] [] [bcdedit, ''/enum'', ''/v'']
     = Completed 1 [] ''denied''"
    by (simp add: scripted_def)
  show ?thesis
    using list_identifiers_first_seen [of "scripted [Completed 0 enum_dump []]" "[]" enum_dump "[]"]
      list_identifiers_first_seen [of "scripted [Completed 1 [] ''denied'']" "[]" "[]" "[]"]
      h h2 v
    by simp
qed

subsection \<open>The identifier of a parsed entry\<close>

text \<open>
  Claim C7 as stated, that for every identifier returned by \<open>list_identifiers\<close> the
  parsed entry is not empty and its \<open>identifier\<close> is that identifier whenever the tool
  can be reached, fails. In the first enumeration below \<open>{bb-02}\<close> is listed, from the
  display order, but its own enumeration exits with a non-zero code, and the parsed
  entry is empty; in the second its dump names another identifier first, and that one
  is bound.
\<close>

theorem listed_identifier_counterexample:
  "''{bb-02}'' \<in> set (fst (list_identifiers dangling_tool [])) \<and>
   parse_entry_properties
     (fst (get_entry_info dangling_tool ''{bb-02}'' [[bcdedit, ''/enum'', ''/v'']])) = [] \<and>
   ''{bb-02}'' \<in> set (fst (list_identifiers stray_tool [])) \<and>
   map_of (parse_entry_properties
     (fst (get_entry_info stray_tool ''{bb-02}'' [[bcdedit, ''/enum'', ''/v'']])))
     ''identifier'' = Some ''{aa-01}''"
  by code_simp

text \<open>
  Claim C7, amended. When an identifier \<open>v\<close> occurs in a dump and no identifier occurs
  at an earlier position, \<open>parse_entry_properties\<close> binds the key \<open>identifier\<close> to \<open>v\<close>;
  the function takes no language, so the key token printed before the identifier plays
  no part. For an identifier \<open>w\<close>, as \<open>list_identifiers\<close> returns it, the entry parsed
  from its own enumeration is empty when that enumeration cannot be started, exits with
  a non-zero code or prints nothing; when it succeeds with a dump whose first identifier
  is \<open>v\<close>, the entry is not empty and its \<open>identifier\<close> is \<open>v\<close>, which is \<open>w\<close> exactly
  when \<open>w\<close> is the first identifier of its own dump.
\<close>

theorem parse_sets_identifier:
  "(is_identifier v \<longrightarrow>
    (\<forall>pre' w' post'. is_identifier w' \<longrightarrow> pre @ v @ post = pre' @ w' @ post'
       \<longrightarrow> length pre \<le> length pre') \<longrightarrow>
    map_of (parse_entry_properties (Some (pre @ v @ post))) ''identifier'' = Some v) \<and>
   (tool log [bcdedit, ''/enum'', w, ''/v''] = Raises \<or>
    (\<exists>returncode out err.
       tool log [bcdedit, ''/enum'', w, ''/v''] = Completed returncode out err \<and>
       (returncode \<noteq> 0 \<or> out = [])) \<longrightarrow>
    parse_entry_properties (fst (get_entry_info tool w log)) = []) \<and>
   (tool log [bcdedit, ''/enum'', w, ''/v''] = Completed 0 (pre @ v @ post) err \<longrightarrow>
    is_identifier v \<longrightarrow>
    (\<forall>pre' w' post'. is_identifier w' \<longrightarrow> pre @ v @ post = pre' @ w' @ post'
       \<longrightarrow> length pre \<le> length pre') \<longrightarrow>
    parse_entry_properties (fst (get_entry_info tool w log)) \<noteq> [] \<and>
    map_of (parse_entry_properties (fst (get_entry_info tool w log))) ''identifier'' = Some v \<and>
    (map_of (parse_entry_properties (fst (get_entry_info tool w log))) ''identifier'' = Some w
       \<longleftrightarrow> v = w))"
proof -
  have parse: "parse_entry_properties (Some (pre @ v @ post)) \<noteq> [] \<and>
      map_of (parse_entry_properties (Some (pre @ v @ post))) ''identifier'' = Some v"
    if i: "is_identifier v"
      and m: "\<forall>pre' w' post'. is_identifier w' \<longrightarrow> pre @ v @ post = pre' @ w' @ post'
         \<longrightarrow> length pre \<le> length pre'"
  proof -
    have f: "first_identifier (pre @ v @ post) = Some v"
      using i m by (intro first_identifier_first) auto
    have ne: "pre @ v @ post \<noteq> []" using identifier_not_empty [OF i] by simp
    show ?thesis
      using f ne
      by (simp add: parse_entry_properties_def first_identifier_def Let_def update_conv')
  qed
  have fail: "parse_entry_properties (fst (get_entry_info tool w log)) = []"
    if "tool log [bcdedit, ''/enum'', w, ''/v''] = Raises \<or>
      (\<exists>returncode out err.
         tool log [bcdedit, ''/enum'', w, ''/v''] = Completed returncode out err \<and>
         (returncode \<noteq> 0 \<or> out = []))"
    using that
    by (auto simp: get_entry_info_def subprocess_run_def parse_entry_properties_def)
  have info: "fst (get_entry_info tool w log) = Some (pre @ v @ post)"
    if "tool log [bcdedit, ''/enum'', w, ''/v''] = Completed 0 (pre @ v @ post) err"
    using that by (simp add: get_entry_info_def subprocess_run_def)
  show ?thesis using parse fail info by auto
qed

theorem parse_sets_identifier_witness:
  "map_of (parse_entry_properties (Some entry_dump)) ''identifier'' = Some ''{aa-01}'' \<and>
   parse_entry_properties
     (fst (get_entry_info dangling_tool ''{bb-02}'' [[bcdedit, ''/enum'', ''/v'']])) = [] \<and>
   parse_entry_properties
     (fst (get_entry_info (scripted [Completed 0 enum_dump [], Completed 0 entry_dump []])
             ''{aa-01}'' [[bcdedit, ''/enum'', ''/v'']])) \<noteq> [] \<and>
   map_of (parse_entry_properties
     (fst (get_entry_info (scripted [Completed 0 enum_dump [], Completed 0 entry_dump []])
             ''{aa-01}'' [[bcdedit, ''/enum'', ''/v'']]))) ''identifier'' = Some ''{aa-01}''"
proof -
  let ?t = "scripted [Completed 0 enum_dump [], Completed 0 entry_dump []]"
  let ?l = "[[bcdedit, ''/enum'', ''/v'']]"
  have f: "first_identifier entry_dump = Some ''{aa-01}''" by code_simp
  from first_identifier_sound [OF f] obtain pre post where
    i: "is_identifier ''{aa-01}''" and e: "entry_dump = pre @ ''{aa-01}'' @ post"
    and m: "\<forall>pre' w' post'. is_identifier w' \<longrightarrow> pre @ ''{aa-01}'' @ post = pre' @ w' @ post'
       \<longrightarrow> length pre \<le> length pre'"
    by auto
  have g: "?t ?l [bcdedit, ''/enum'', ''{aa-01}'', ''/v'']
     = Completed 0 (pre @ ''{aa-01}'' @ post) []"
    unfolding e [symmetric] by (simp add: scripted_def)
  have d: "dangling_tool ?l [bcdedit, ''/enum'', ''{bb-02}'', ''/v'']
     = Completed 1 [] ''The specified entry is not valid''"
    by (simp add: dangling_tool_def scripted_def)
  show ?thesis
    using parse_sets_identifier [of "''{aa-01}''" pre post ?t ?l "''{aa-01}''" "[]"]
      parse_sets_identifier [of "''{aa-01}''" pre post dangling_tool ?l "''{bb-02}''" "[]"]
      i m g d
    unfolding e [symmetric] by simp
qed

subsection \<open>The missing-entry status\<close>




























































subsection \<open>Failures of the external tool\<close>

text \<open>
  Every operation adds the commands it issues to the log, so the commands of an operation
  are the part of its log after the log it was given. The lemmas below give, operation
  by operation, the result when one of these commands cannot be started or exits with a
  non-zero code.
\<close>

lemma spawn_failure_in_append:
  "spawn_failure_in tool log (xs @ ys)
     = (spawn_failure_in tool log xs \<or> spawn_failure_in tool (log @ xs) ys)"
  by (induction xs arbitrary: log) auto

lemma exit_failure_in_append:
  "exit_failure_in tool log (xs @ ys)
     = (exit_failure_in tool log xs \<or> exit_failure_in tool (log @ xs) ys)"
  by (induction xs arbitrary: log) auto
















lemma exit_failure_in_single:
  "exit_failure_in tool log [argv] \<Longrightarrow> exit_code tool log argv \<noteq> Some 0"
  "spawn_failure_in tool log [argv] \<Longrightarrow> exit_code tool log argv \<noteq> Some 0"
  by (auto split: option.splits)






























end
